theory Spec2Isabelle
  imports Main
begin

section \<open>Data model\<close>

text \<open>
  A Python \<open>str\<close> is a sequence of Unicode code points and \<open>len\<close> counts code points,
  so a string is modelled as the list of its code points. \<open>ustr\<close> embeds an ASCII
  literal.
\<close>

type_synonym pystr = "nat list"

definition ustr :: "string \<Rightarrow> pystr" where
  "ustr s = map of_char s"

text \<open>The exceptions that the modelled functions can raise.\<close>

datatype error =
    IndexError
  | ReadError pystr
  | FileFailed pystr
  | UploadError pystr

text \<open>The dictionary built by \<open>convert_to_records\<close>: always the three keys
  \<open>'instruction'\<close>, \<open>'input'\<close> and \<open>'output'\<close> (\<open>output\<close> is a reserved word here,
  so the fields carry the prefix \<open>rec_\<close>).\<close>

record json_record =
  rec_instruction :: pystr
  rec_input :: pystr
  rec_output :: pystr

section \<open>\<open>process_lines\<close>\<close>

text \<open>
  The \<open>for line in lines\<close> loop of \<open>process_lines\<close>, with its two mutable variables
  \<open>sections\<close> and \<open>section\<close> passed as state. \<open>max_size\<close> is a Python integer.
\<close>

fun process_loop :: "pystr list \<Rightarrow> int \<Rightarrow> pystr list \<Rightarrow> pystr \<Rightarrow> pystr list \<times> pystr" where
  "process_loop [] max_size sections section = (sections, section)"
| "process_loop (line # lines) max_size sections section =
     (if int (length section) + int (length line) < max_size
      then process_loop lines max_size sections (section @ line)
      else process_loop lines max_size (sections @ [section]) line)"

definition process_lines :: "pystr list \<Rightarrow> int \<Rightarrow> pystr list" where
  "process_lines lines max_size =
     (case process_loop lines max_size [] [] of
        (sections, section) \<Rightarrow>
          if section \<noteq> [] then sections @ [section] else sections)"

text \<open>The default argument \<open>max_size=512\<close>.\<close>

definition process_lines_default :: "pystr list \<Rightarrow> pystr list" where
  "process_lines_default lines = process_lines lines 512"

text \<open>
  The greedy accumulation rule in the words of the specification, as a function of the
  current buffer and the lines still to scan: a line joins the buffer iff the summed
  lengths stay strictly below the bound; otherwise the buffer is emitted and the line
  starts the next buffer; at the end the buffer is emitted iff it is non-empty.
\<close>

fun greedy_rule :: "int \<Rightarrow> pystr \<Rightarrow> pystr list \<Rightarrow> pystr list" where
  "greedy_rule S buffer [] = (if buffer = [] then [] else [buffer])"
| "greedy_rule S buffer (line # rest) =
     (if int (length buffer) + int (length line) < S
      then greedy_rule S (buffer @ line) rest
      else buffer # greedy_rule S line rest)"


section \<open>\<open>convert_to_records\<close>\<close>

text \<open>
  The literal assigned to the key \<open>instruction\<close>, as its 31 code points
  (U+4E0B U+5217 U+4E3A ... U+3002).
\<close>

definition INSTRUCTION :: pystr where
  "INSTRUCTION =
     [19979, 21015, 20026, 19968, 37096, 23567, 35828, 20013, 30340, 19968, 37096,
      20998, 20869, 23481, 65292, 35831, 21442, 29031, 36825, 37096, 20998, 20869,
      23481, 65292, 32493, 20889, 19979, 19968, 37096, 20998, 12290]"

text \<open>
  Python list subscription \<open>xs[i]\<close>: an index below zero counts from the end, and an
  index outside \<open>-len(xs) .. len(xs) - 1\<close> raises \<open>IndexError\<close>.
\<close>

definition getitem :: "'a list \<Rightarrow> int \<Rightarrow> error + 'a" where
  "getitem xs i =
     (if 0 \<le> i \<and> i < int (length xs) then Inr (xs ! nat i)
      else if i < 0 \<and> - int (length xs) \<le> i then Inr (xs ! nat (int (length xs) + i))
      else Inl IndexError)"

text \<open>
  \<open>range(start, stop, step)\<close> for a positive step: \<open>start, start + step, ...\<close> as long
  as the value is below \<open>stop\<close>. (The source only calls it with step 2; for a step that
  is not positive this model yields no index.)
\<close>

function py_range :: "int \<Rightarrow> int \<Rightarrow> int \<Rightarrow> int list" where
  "py_range start stop step =
     (if 0 < step \<and> start < stop then start # py_range (start + step) stop step else [])"
  by pat_completeness auto
termination
  by (relation "measure (\<lambda>(start, stop, step). nat (stop - start))") auto

declare py_range.simps [simp del]

text \<open>
  The body of \<open>for i in range(...)\<close> in \<open>convert_to_records\<close>, run over the indices the
  range yields, with the list \<open>records\<close> passed as state. Each subscription may raise,
  which ends the loop.
\<close>

fun convert_loop :: "pystr list \<Rightarrow> int list \<Rightarrow> json_record list \<Rightarrow> error + json_record list" where
  "convert_loop sections [] records = Inr records"
| "convert_loop sections (i # indices) records =
     (case getitem sections i of
        Inl e \<Rightarrow> Inl e
      | Inr a \<Rightarrow>
          (case getitem sections (i + 1) of
             Inl e \<Rightarrow> Inl e
           | Inr b \<Rightarrow>
               convert_loop sections indices
                 (records @ [\<lparr>rec_instruction = INSTRUCTION, rec_input = a, rec_output = b\<rparr>])))"

definition convert_to_records :: "pystr list \<Rightarrow> error + json_record list" where
  "convert_to_records sections =
     convert_loop sections (py_range 0 (int (length sections) - 1) 2) []"

section \<open>The environment: file system, worker pool and remote service\<close>

text \<open>
  What the program reads from the outside, as parameters of the model:
  \<^item> \<open>listdir\<close>: the entry names \<open>os.listdir\<close> returns for a directory, in the order it
    returns them;
  \<^item> \<open>readlines\<close>: the lines of the file at a path as \<open>file.readlines()\<close> gives them
    (\<open>None\<close> when opening or decoding the file raises);
  \<^item> \<open>path_join\<close>, \<open>path_dirname\<close>: the platform's \<open>os.path.join\<close> and
    \<open>os.path.dirname\<close>;
  \<^item> \<open>upload_file\<close>: the file object \<open>genai.upload_file\<close> returns (\<open>None\<close> when it
    raises);
  \<^item> \<open>get_file\<close>: the state name \<open>genai.get_file(name).state.name\<close> answered to the
    \<open>n\<close>-th status request of the run.

  Calls of \<open>log\<close> only print and are left out. \<open>os.makedirs\<close>, \<open>os.listdir\<close>, the
  start of the pool, the status request itself and the final \<open>open\<close> and \<open>json.dump\<close>
  are taken to succeed; the exceptions modelled are those of reading a file, of the
  upload, of a subscription and the one raised for the state \<open>FAILED\<close>.
\<close>

record uploaded_file =
  file_name :: pystr
  file_display_name :: pystr
  file_uri :: pystr

record environment =
  listdir :: "pystr \<Rightarrow> pystr list"
  readlines :: "pystr \<Rightarrow> pystr list option"
  path_join :: "pystr \<Rightarrow> pystr \<Rightarrow> pystr"
  path_dirname :: "pystr \<Rightarrow> pystr"
  upload_file :: "pystr \<Rightarrow> uploaded_file option"
  get_file :: "pystr \<Rightarrow> nat \<Rightarrow> pystr"

text \<open>
  What the program writes: the directories made by \<open>os.makedirs\<close> and the JSON
  artifacts, each the list of records given to \<open>json.dump\<close>, by path.
\<close>

record outputs =
  directories :: "pystr set"
  artifacts :: "pystr \<rightharpoonup> json_record list"

text \<open>
  The polling side of the run: how many status requests were made, how many times
  \<open>time.sleep(10)\<close> was called and the time slept in total.
\<close>

record timer =
  polls :: nat
  sleeps :: nat
  slept :: nat

section \<open>\<open>upload_to_gemini\<close> and \<open>wait_for_files_active\<close>\<close>

definition upload_to_gemini :: "environment \<Rightarrow> pystr \<Rightarrow> error + uploaded_file" where
  "upload_to_gemini env file_path =
     (case upload_file env file_path of
        None \<Rightarrow> Inl (UploadError file_path)
      | Some file \<Rightarrow> Inr file)"

text \<open>
  The \<open>while True\<close> loop for one file. It has no bound, so the model is a partial
  function: \<open>None\<close> is a loop that never ends. \<open>Inl\<close> is the raised exception, which
  carries the file's name.
\<close>

partial_function (option) wait_loop ::
  "environment \<Rightarrow> uploaded_file \<Rightarrow> timer \<Rightarrow> (error + timer) option" where
  "wait_loop env file t =
     (if get_file env (file_name file) (polls t) = ustr ''ACTIVE''
      then Some (Inr (t\<lparr>polls := polls t + 1\<rparr>))
      else if get_file env (file_name file) (polls t) = ustr ''FAILED''
      then Some (Inl (FileFailed (file_name file)))
      else wait_loop env file
             (t\<lparr>polls := polls t + 1, sleeps := sleeps t + 1, slept := slept t + 10\<rparr>))"

fun wait_for_files_active ::
  "environment \<Rightarrow> uploaded_file list \<Rightarrow> timer \<Rightarrow> (error + timer) option" where
  "wait_for_files_active env [] t = Some (Inr t)"
| "wait_for_files_active env (file # files) t =
     (case wait_loop env file t of
        None \<Rightarrow> None
      | Some (Inl e) \<Rightarrow> Some (Inl e)
      | Some (Inr t') \<Rightarrow> wait_for_files_active env files t')"

section \<open>\<open>read_text_file\<close> and \<open>process_single_file\<close>\<close>

definition read_text_file :: "environment \<Rightarrow> pystr \<Rightarrow> error + pystr list" where
  "read_text_file env file_path =
     (case readlines env file_path of
        None \<Rightarrow> Inl (ReadError file_path)
      | Some lines \<Rightarrow> Inr lines)"

definition process_single_file :: "environment \<Rightarrow> pystr \<Rightarrow> error + json_record list" where
  "process_single_file env file_path =
     (case read_text_file env file_path of
        Inl e \<Rightarrow> Inl e
      | Inr lines \<Rightarrow> convert_to_records (process_lines_default lines))"

section \<open>\<open>generate_json_dataset\<close>\<close>

text \<open>\<open>s.endswith(suffix)\<close>.\<close>

definition endswith :: "pystr \<Rightarrow> pystr \<Rightarrow> bool" where
  "endswith s suffix \<longleftrightarrow>
     length suffix \<le> length s \<and> drop (length s - length suffix) s = suffix"

text \<open>
  \<open>pool.map(f, xs)\<close> of \<open>multiprocessing.Pool\<close>: one task per element of \<open>xs\<close>, run by
  the workers. The list \<open>completion\<close> names the tasks in the order in which they finish.
  The result of task \<open>i\<close> is stored in slot \<open>i\<close> of the result list, whenever it
  arrives. \<open>map\<close> returns once every slot is filled: the results in the order of \<open>xs\<close>,
  or, if a task raised, the exception of the first task that failed. \<open>None\<close> stands for
  a call that never returns because some task never finishes.
\<close>

definition pool_store ::
  "('a \<Rightarrow> error + 'b) \<Rightarrow> 'a list \<Rightarrow> nat list \<Rightarrow> (error + 'b) option list" where
  "pool_store f xs completion =
     foldl (\<lambda>slots i. if i < length slots then slots[i := Some (f (xs ! i))] else slots)
       (replicate (length xs) None) completion"

fun first_failure :: "(error + 'b) option list \<Rightarrow> nat list \<Rightarrow> error option" where
  "first_failure slots [] = None"
| "first_failure slots (i # completion) =
     (if i < length slots then
        (case slots ! i of
           Some (Inl e) \<Rightarrow> Some e
         | _ \<Rightarrow> first_failure slots completion)
      else first_failure slots completion)"

fun slot_value :: "(error + 'b) option \<Rightarrow> 'b list" where
  "slot_value (Some (Inr v)) = [v]"
| "slot_value _ = []"

definition pool_map ::
  "('a \<Rightarrow> error + 'b) \<Rightarrow> 'a list \<Rightarrow> nat list \<Rightarrow> (error + 'b list) option" where
  "pool_map f xs completion =
     (let slots = pool_store f xs completion in
      if None \<in> set slots then None
      else (case first_failure slots completion of
              Some e \<Rightarrow> Some (Inl e)
            | None \<Rightarrow> Some (Inr (concat (map slot_value slots)))))"

text \<open>
  \<open>generate_json_dataset\<close>: the directory is made first, the files are selected by the
  list comprehension over \<open>os.listdir\<close>, the pool maps \<open>process_single_file\<close> over them,
  and only then the flattened results are written to \<open>dataset.json\<close>. An exception
  leaves the function at the point where it is raised.
\<close>

definition text_files :: "environment \<Rightarrow> pystr \<Rightarrow> pystr list" where
  "text_files env input_dir =
     [path_join env input_dir f. f \<leftarrow> listdir env input_dir, endswith f (ustr ''.txt'')]"

definition generate_json_dataset ::
  "environment \<Rightarrow> nat list \<Rightarrow> pystr \<Rightarrow> pystr \<Rightarrow> outputs
     \<Rightarrow> ((error + json_record list) \<times> outputs) option" where
  "generate_json_dataset env completion input_dir output_dir out =
     (let out1 = out\<lparr>directories := insert output_dir (directories out)\<rparr> in
      case pool_map (process_single_file env) (text_files env input_dir) completion of
        None \<Rightarrow> None
      | Some (Inl e) \<Rightarrow> Some (Inl e, out1)
      | Some (Inr results) \<Rightarrow>
          (let records = concat results;
               output_file = path_join env output_dir (ustr ''dataset.json'')
           in Some (Inr records,
                    out1\<lparr>artifacts := (artifacts out1)(output_file \<mapsto> records)\<rparr>)))"

text \<open>
  A sequential map over a list that stops at the first exception: what a plain
  \<open>for\<close> loop calling \<open>f\<close> on each element in turn would return. It serves as the
  reference the pool is compared with.
\<close>

fun sequential_map :: "('a \<Rightarrow> error + 'b) \<Rightarrow> 'a list \<Rightarrow> error + 'b list" where
  "sequential_map f [] = Inr []"
| "sequential_map f (x # xs) =
     (case f x of
        Inl e \<Rightarrow> Inl e
      | Inr r \<Rightarrow>
          (case sequential_map f xs of
             Inl e \<Rightarrow> Inl e
           | Inr rs \<Rightarrow> Inr (r # rs)))"

section \<open>\<open>main\<close>\<close>

text \<open>The hard-coded \<open>file_path\<close> of \<open>main\<close>, as its 121 code points.\<close>

definition FILE_PATH :: pystr where
  "FILE_PATH =
     [71, 58, 92, 103, 114, 111, 119, 117, 112, 97, 105, 92, 108, 108, 97, 109, 97, 51,
      45, 116, 120, 116, 50, 106, 115, 111, 110, 45, 100, 97, 116, 97, 115, 101, 116,
      45, 109, 97, 107, 101, 114, 92, 110, 111, 118, 101, 108, 92, 36817, 51, 48,
      24180, 20013, 22269, 20013, 31687, 23567, 35828, 31934, 31929, 65288, 26827,
      29579, 12289, 23567, 22478, 20043, 24651, 12289, 22825, 29399, 12289, 32418,
      39640, 31921, 12289, 49, 57, 51, 52, 24180, 30340, 36867, 20129, 12289, 20239,
      32690, 20239, 32690, 12289, 21629, 33509, 29748, 24358, 12289, 26691, 33457,
      28799, 28866, 12289, 29983, 27963, 31168, 12289, 23545, 38754, 12289, 19978,
      28023, 22899, 20154, 12289, 26494, 40486, 20026, 20160, 20040, 46, 116, 120, 116]"

text \<open>
  \<open>main\<close>: upload, wait, then generate with the default output directory \<open>./ok\<close>.
  The result is the exception that ended the run (or \<open>()\<close>) and what was written.
\<close>

definition main ::
  "environment \<Rightarrow> nat list \<Rightarrow> timer \<Rightarrow> outputs \<Rightarrow> ((error + unit) \<times> outputs) option" where
  "main env completion t out =
     (case upload_to_gemini env FILE_PATH of
        Inl e \<Rightarrow> Some (Inl e, out)
      | Inr uploaded \<Rightarrow>
          (case wait_for_files_active env [uploaded] t of
             None \<Rightarrow> None
           | Some (Inl e) \<Rightarrow> Some (Inl e, out)
           | Some (Inr t') \<Rightarrow>
               (case generate_json_dataset env completion
                       (path_dirname env FILE_PATH) (ustr ''./ok'') out of
                  None \<Rightarrow> None
                | Some (Inl e, out') \<Rightarrow> Some (Inl e, out')
                | Some (Inr records, out') \<Rightarrow> Some (Inr (), out'))))"

section \<open>A concrete run\<close>

text \<open>
  A small environment to evaluate the model on: a directory \<open>novel\<close> with three
  \<open>.txt\<close> entries and two others. \<open>a.txt\<close> and \<open>c.txt\<close> hold two lines of 300
  characters each, \<open>b.txt\<close> is empty; the other two entries cannot be read as text.
  The remote service answers \<open>PROCESSING\<close>, \<open>PROCESSING\<close>, \<open>ACTIVE\<close>.
\<close>

definition example_env :: environment where
  "example_env =
     \<lparr>listdir = (\<lambda>d. [ustr ''a.txt'', ustr ''notes.md'', ustr ''b.txt'',
                       ustr ''c.txt'', ustr ''cover.png'']),
      readlines = (\<lambda>p. if p = ustr ''novel/a.txt''
                           then Some [replicate 300 97, replicate 300 98]
                         else if p = ustr ''novel/b.txt'' then Some []
                         else if p = ustr ''novel/c.txt''
                           then Some [replicate 300 99, replicate 300 100]
                         else None),
      path_join = (\<lambda>a b. a @ ustr ''/'' @ b),
      path_dirname = (\<lambda>p. ustr ''novel''),
      upload_file = (\<lambda>p. Some \<lparr>file_name = ustr ''files/n1'',
                                  file_display_name = ustr ''n1.txt'',
                                  file_uri = ustr ''uri''\<rparr>),
      get_file = (\<lambda>name n. if n < 2 then ustr ''PROCESSING'' else ustr ''ACTIVE'')\<rparr>"

text \<open>The same environment with \<open>b.txt\<close> unreadable and a remote state \<open>FAILED\<close>.\<close>

definition failing_env :: environment where
  "failing_env =
     example_env
       \<lparr>readlines := (\<lambda>p. if p = ustr ''novel/b.txt'' then None
                            else readlines example_env p),
        get_file := (\<lambda>name n. if n < 1 then ustr ''PROCESSING'' else ustr ''FAILED'')\<rparr>"

definition no_outputs :: outputs where
  "no_outputs = \<lparr>directories = {}, artifacts = Map.empty\<rparr>"

definition timer_start :: timer where
  "timer_start = \<lparr>polls = 0, sleeps = 0, slept = 0\<rparr>"

section \<open>Properties of \<open>process_lines\<close>\<close>

lemma process_loop_greedy:
  "(case process_loop lines S acc buf of
      (secs, sec) \<Rightarrow> if sec \<noteq> [] then secs @ [sec] else secs)
   = acc @ greedy_rule S buf lines"
  by (induction lines arbitrary: acc buf) auto

text \<open>
  C1. \<open>process_lines\<close> implements the greedy accumulation rule exactly: for every list
  of lines and every \<open>max_size\<close> its result is the result of scanning the lines in order
  from an empty buffer, appending a line iff \<open>len(buffer) + len(line) < max_size\<close>,
  otherwise emitting the buffer and restarting it with the line, and emitting the last
  buffer iff it is non-empty.
\<close>

theorem process_lines_implements_greedy_rule:
  "process_lines lines max_size = greedy_rule max_size [] lines"
  using process_loop_greedy [of lines max_size "[]" "[]"]
  by (simp add: process_lines_def)

lemma process_loop_concat:
  "process_loop lines S acc buf = (secs, sec) \<Longrightarrow>
   concat secs @ sec = concat acc @ buf @ concat lines"
  by (induction lines arbitrary: acc buf) (auto split: if_splits)

lemma process_lines_concat: "concat (process_lines lines S) = concat lines"
proof -
  obtain secs sec where r: "process_loop lines S [] [] = (secs, sec)"
    by (cases "process_loop lines S [] []")
  from process_loop_concat [OF r] have "concat secs @ sec = concat lines" by simp
  with r show ?thesis by (cases "sec = []") (simp_all add: process_lines_def)
qed

text \<open>
  C2. For every list of lines and every size bound \<open>S > 0\<close>, the chunks returned by
  \<open>process_lines(lines, S)\<close>, concatenated in order, are the concatenation of the input
  lines: no character is lost, duplicated or reordered.
\<close>

theorem process_lines_roundtrip:
  assumes "0 < S"
  shows "concat (process_lines lines S) = concat lines"
  by (rule process_lines_concat)

theorem process_lines_roundtrip_witness:
  "(0::int) < 4 \<and>
   concat (process_lines [ustr ''ab'', ustr ''cde'', ustr ''f''] 4)
     = concat [ustr ''ab'', ustr ''cde'', ustr ''f'']"
proof -
  have h: "(0::int) < 4" by simp
  from process_lines_roundtrip [OF h, of "[ustr ''ab'', ustr ''cde'', ustr ''f'']"] h
  show ?thesis by simp
qed

text \<open>
  C3. The claim is that every chunk returned by \<open>process_lines\<close> is a non-empty string.
  The loop appends the buffer to \<open>sections\<close> without the test \<open>if section:\<close> that guards
  the append after the loop, so when the very first line does not fit (its own length
  reaches \<open>max_size\<close>) the still empty initial buffer is emitted. With the default bound
  512, a file whose first line has 511 characters and a newline gives an empty first
  chunk.
\<close>

theorem process_lines_emits_empty_chunk:
  "process_lines_default [replicate 511 97 @ [10]] = [[], replicate 511 97 @ [10]]"
  by (simp add: process_lines_default_def process_lines_def)

lemma process_lines_oversize_first_line:
  "max_size \<le> int (length line) \<Longrightarrow>
   process_lines (line # lines) max_size = [] # greedy_rule max_size line lines"
  using process_loop_greedy [of "line # lines" max_size "[]" "[]"]
  by (simp add: process_lines_def)

lemma process_lines_no_lines: "process_lines [] max_size = []"
  by (simp add: process_lines_def)










section \<open>Properties of \<open>convert_to_records\<close>\<close>

lemma py_range_two:
  "k \<le> n div 2 \<Longrightarrow>
   py_range (2 * int k) (int n - 1) 2 = map (\<lambda>j. 2 * int j) [k..<n div 2]"
proof (induction "n div 2 - k" arbitrary: k)
  case 0
  then have "\<not> 2 * int k < int n - 1" by presburger
  with 0 show ?case by (subst py_range.simps) simp
next
  case (Suc m)
  then have lt: "k < n div 2" by simp
  then have c: "2 * int k < int n - 1" by presburger
  have m: "m = n div 2 - Suc k" using Suc.hyps(2) by simp
  have le: "Suc k \<le> n div 2" using lt by simp
  have step: "2 * int k + 2 = 2 * int (Suc k)" by simp
  show ?case
    apply (subst py_range.simps)
    apply (simp only: c step)
    apply (subst Suc.hyps(1) [OF m le])
    apply (simp add: upt_conv_Cons [OF lt])
    done
qed

lemma py_range_pairs:
  "py_range 0 (int n - 1) 2 = map (\<lambda>j. 2 * int j) [0..<n div 2]"
  using py_range_two [of 0 n] by simp

lemma convert_loop_in_range:
  "\<forall>i\<in>set indices. 0 \<le> i \<and> i + 1 < int (length s) \<Longrightarrow>
   convert_loop s indices rs =
   Inr (rs @ map (\<lambda>i. \<lparr>rec_instruction = INSTRUCTION, rec_input = s ! nat i,
                         rec_output = s ! nat (i + 1)\<rparr>) indices)"
  by (induction indices arbitrary: rs) (simp_all add: getitem_def)

lemma pair_index_in_range: "j < n div 2 \<Longrightarrow> 2 * int j + 1 < int n"
  by presburger

lemma py_range_in_range:
  "\<forall>i\<in>set (py_range 0 (int (length s) - 1) 2). 0 \<le> i \<and> i + 1 < int (length s)"
  by (auto simp: py_range_pairs pair_index_in_range)

lemma convert_to_records_eq:
  "convert_to_records s =
   Inr (map (\<lambda>k. \<lparr>rec_instruction = INSTRUCTION, rec_input = s ! (2 * k),
                   rec_output = s ! (2 * k + 1)\<rparr>) [0..<length s div 2])"
  unfolding convert_to_records_def
  apply (subst convert_loop_in_range [OF py_range_in_range])
  apply (simp add: py_range_pairs o_def nat_mult_distrib nat_add_distrib)
  done

text \<open>
  C4. For a chunk sequence of length \<open>N\<close>, \<open>convert_to_records\<close> returns without error
  the list of the \<open>N div 2\<close> records whose \<open>k\<close>-th element has the chunk at index \<open>2k\<close> as
  input, the chunk at index \<open>2k + 1\<close> as output and the fixed literal as instruction.
  Hence no record for \<open>N = 0\<close> or \<open>N = 1\<close>, and for odd \<open>N\<close> the last chunk is in no
  record.
\<close>

theorem convert_to_records_pairs:
  "convert_to_records sections =
     Inr (map (\<lambda>k. \<lparr>rec_instruction = INSTRUCTION,
                     rec_input = sections ! (2 * k),
                     rec_output = sections ! (2 * k + 1)\<rparr>)
            [0..<length sections div 2])
   \<and> (\<forall>records. convert_to_records sections = Inr records \<longrightarrow>
         length records = length sections div 2
         \<and> (length sections \<le> 1 \<longrightarrow> records = []))"
  by (auto simp: convert_to_records_eq)

theorem convert_to_records_pairs_witness:
  "convert_to_records [[1], [2], [3], [4], [5]] =
     Inr [\<lparr>rec_instruction = INSTRUCTION, rec_input = [1], rec_output = [2]\<rparr>,
          \<lparr>rec_instruction = INSTRUCTION, rec_input = [3], rec_output = [4]\<rparr>]
   \<and> length [\<lparr>rec_instruction = INSTRUCTION, rec_input = [1], rec_output = [2]\<rparr>,
             \<lparr>rec_instruction = INSTRUCTION, rec_input = [3], rec_output = [4::nat]\<rparr>]
       = length [[1], [2], [3], [4], [5::nat]] div 2
   \<and> convert_to_records [[7]] = Inr []"
  using convert_to_records_pairs [of "[[1], [2], [3], [4], [5]]"]
        convert_to_records_pairs [of "[[7]]"]
  by (simp add: upt_rec)

text \<open>
  C10. \<open>convert_to_records\<close> never subscripts out of range: every index \<open>i\<close> that the
  range yields is even, at least 0 and strictly below \<open>len(sections) - 1\<close>, so both
  \<open>sections[i]\<close> and \<open>sections[i + 1]\<close> succeed, and the function returns a list of
  records (never an \<open>IndexError\<close>) on every input, the empty and the singleton list
  included.
\<close>

theorem convert_to_records_in_range:
  "(\<forall>i\<in>set (py_range 0 (int (length sections) - 1) 2).
       even i \<and> 0 \<le> i \<and> i < int (length sections) - 1
       \<and> getitem sections i = Inr (sections ! nat i)
       \<and> getitem sections (i + 1) = Inr (sections ! nat (i + 1)))
   \<and> (\<exists>records. convert_to_records sections = Inr records)"
proof -
  have "\<forall>i\<in>set (py_range 0 (int (length sections) - 1) 2).
          even i \<and> 0 \<le> i \<and> i < int (length sections) - 1"
    using pair_index_in_range [of _ "length sections"]
    by (fastforce simp: py_range_pairs)
  moreover have "\<forall>i. 0 \<le> i \<and> i < int (length sections) - 1 \<longrightarrow>
          getitem sections i = Inr (sections ! nat i)
          \<and> getitem sections (i + 1) = Inr (sections ! nat (i + 1))"
    by (simp add: getitem_def)
  ultimately show ?thesis
    by (simp add: convert_to_records_eq)
qed

theorem convert_to_records_in_range_witness:
  "2 \<in> set (py_range 0 (int (length [[1], [2], [3], [4], [5::nat]]) - 1) 2)
   \<and> getitem [[1], [2], [3], [4], [5::nat]] 2 = Inr [3]
   \<and> getitem [[1], [2], [3], [4], [5::nat]] (2 + 1) = Inr [4]
   \<and> (\<exists>records. convert_to_records [] = Inr records)
   \<and> (\<exists>records. convert_to_records [[7]] = Inr records)"
  using convert_to_records_in_range [of "[[1], [2], [3], [4], [5]]"]
        convert_to_records_in_range [of "[]"]
        convert_to_records_in_range [of "[[7]]"]
  by (simp add: py_range.simps)

section \<open>Properties of the worker pool\<close>

lemma store_length:
  "length (foldl (\<lambda>slots i. if i < length slots then slots[i := Some (f (xs ! i))] else slots) sl c)
   = length sl"
  by (induction c arbitrary: sl) simp_all

lemma store_nth:
  "j < length sl \<Longrightarrow>
   foldl (\<lambda>slots i. if i < length slots then slots[i := Some (f (xs ! i))] else slots) sl c ! j
   = (if j \<in> set c then Some (f (xs ! j)) else sl ! j)"
proof (induction c arbitrary: sl)
  case Nil
  then show ?case by simp
next
  case (Cons i c)
  show ?case
  proof (cases "i < length sl")
    case True
    have l: "j < length (sl[i := Some (f (xs ! i))])" using Cons.prems by simp
    show ?thesis
      using True Cons.IH [OF l] Cons.prems by (auto simp: nth_list_update)
  next
    case False
    with Cons.IH [OF Cons.prems] Cons.prems show ?thesis by auto
  qed
qed

lemma pool_store_complete:
  assumes "\<forall>i<length xs. i \<in> set completion"
  shows "pool_store f xs completion = map (\<lambda>x. Some (f x)) xs"
proof (rule nth_equalityI)
  show "length (pool_store f xs completion) = length (map (\<lambda>x. Some (f x)) xs)"
    by (simp add: pool_store_def store_length)
next
  fix j assume "j < length (pool_store f xs completion)"
  then have j: "j < length xs" by (simp add: pool_store_def store_length)
  then have "j < length (replicate (length xs) (None :: (error + 'b) option))" by simp
  from store_nth [OF this, of f xs completion] j assms
  show "pool_store f xs completion ! j = map (\<lambda>x. Some (f x)) xs ! j"
    by (simp add: pool_store_def)
qed

lemma first_failure_none:
  "\<forall>i<length slots. \<exists>v. slots ! i = Some (Inr v) \<Longrightarrow> first_failure slots c = None"
  by (induction c) auto

lemma first_failure_some:
  "i \<in> set c \<Longrightarrow> i < length slots \<Longrightarrow> slots ! i = Some (Inl e0) \<Longrightarrow>
   \<exists>e k. first_failure slots c = Some e \<and> k < length slots \<and> slots ! k = Some (Inl e)"
proof (induction c)
  case Nil
  then show ?case by simp
next
  case (Cons a c)
  show ?case
  proof (cases "a < length slots \<and> (\<exists>e. slots ! a = Some (Inl e))")
    case True
    then show ?thesis by auto
  next
    case False
    then have eq: "first_failure slots (a # c) = first_failure slots c"
      by (auto split: option.splits sum.splits)
    from False Cons.prems have "i \<in> set c" by auto
    from Cons.IH [OF this Cons.prems(2) Cons.prems(3)] eq show ?thesis by simp
  qed
qed

lemma slot_values_map:
  "\<forall>i<length xs. f (xs ! i) = Inr (rs ! i) \<Longrightarrow> length rs = length xs \<Longrightarrow>
   concat (map slot_value (map (\<lambda>x. Some (f x)) xs)) = rs"
proof (induction xs arbitrary: rs)
  case Nil
  then show ?case by simp
next
  case (Cons x xs)
  then obtain r rs' where rs: "rs = r # rs'" by (cases rs) auto
  from Cons.prems(1) rs have h: "f x = Inr r" by auto
  from Cons.prems(1) rs have t: "\<forall>i<length xs. f (xs ! i) = Inr (rs' ! i)" by auto
  from Cons.prems(2) rs have "length rs' = length xs" by simp
  from Cons.IH [OF t this] h rs show ?case by simp
qed

lemma pool_map_success:
  assumes c: "\<forall>i<length xs. i \<in> set completion"
    and ok: "\<forall>i<length xs. f (xs ! i) = Inr (rs ! i)" and len: "length rs = length xs"
  shows "pool_map f xs completion = Some (Inr rs)"
proof -
  have s: "pool_store f xs completion = map (\<lambda>x. Some (f x)) xs"
    by (rule pool_store_complete [OF c])
  have n: "None \<notin> set (map (\<lambda>x. Some (f x)) xs)" by auto
  have "\<forall>i<length (map (\<lambda>x. Some (f x)) xs). \<exists>v. map (\<lambda>x. Some (f x)) xs ! i = Some (Inr v)"
    using ok by simp
  then have ff: "first_failure (map (\<lambda>x. Some (f x)) xs) completion = None"
    by (rule first_failure_none)
  show ?thesis
    unfolding pool_map_def Let_def s
    using n ff slot_values_map [OF ok len] by simp
qed

lemma pool_map_failure:
  assumes c: "\<forall>i<length xs. i \<in> set completion"
    and bad: "i < length xs" "f (xs ! i) = Inl e0"
  shows "\<exists>e k. pool_map f xs completion = Some (Inl e) \<and> k < length xs \<and> f (xs ! k) = Inl e"
proof -
  have s: "pool_store f xs completion = map (\<lambda>x. Some (f x)) xs"
    by (rule pool_store_complete [OF c])
  have n: "None \<notin> set (map (\<lambda>x. Some (f x)) xs)" by auto
  from c bad(1) have ic: "i \<in> set completion" by simp
  have il: "i < length (map (\<lambda>x. Some (f x)) xs)" using bad(1) by simp
  have iv: "map (\<lambda>x. Some (f x)) xs ! i = Some (Inl e0)" using bad by simp
  from first_failure_some [OF ic il iv]
  obtain e k where ek: "first_failure (map (\<lambda>x. Some (f x)) xs) completion = Some e"
    "k < length (map (\<lambda>x. Some (f x)) xs)" "map (\<lambda>x. Some (f x)) xs ! k = Some (Inl e)"
    by blast
  then have "k < length xs" "f (xs ! k) = Inl e" by simp_all
  moreover have "pool_map f xs completion = Some (Inl e)"
    unfolding pool_map_def Let_def s using n ek(1) by simp
  ultimately show ?thesis by blast
qed

lemma sequential_map_Inr:
  "sequential_map f xs = Inr rs \<longleftrightarrow>
   length rs = length xs \<and> (\<forall>i<length xs. f (xs ! i) = Inr (rs ! i))"
proof (induction xs arbitrary: rs)
  case Nil
  then show ?case by auto
next
  case (Cons x xs)
  show ?case
  proof (cases "f x")
    case (Inl e)
    then show ?thesis by (auto intro: exI [of _ 0])
  next
    case (Inr r)
    show ?thesis
    proof (cases "sequential_map f xs")
      case (Inl e)
      have "\<not> (length (tl rs) = length xs \<and> (\<forall>i<length xs. f (xs ! i) = Inr (tl rs ! i)))"
        using Cons.IH [of "tl rs"] Inl by simp
      then have "\<not> (length rs = length (x # xs) \<and> (\<forall>i<length (x # xs). f ((x # xs) ! i) = Inr (rs ! i)))"
        by (cases rs) fastforce+
      with Inl Inr show ?thesis by simp
    next
      case r2: (Inr rs')
      from Cons.IH [of rs'] r2
      have t: "length rs' = length xs" "\<forall>i<length xs. f (xs ! i) = Inr (rs' ! i)" by simp_all
      show ?thesis
      proof
        assume "sequential_map f (x # xs) = Inr rs"
        with Inr r2 have "rs = r # rs'" by simp
        with t Inr show "length rs = length (x # xs) \<and> (\<forall>i<length (x # xs). f ((x # xs) ! i) = Inr (rs ! i))"
          by (auto simp: nth_Cons split: nat.splits)
      next
        assume a: "length rs = length (x # xs) \<and> (\<forall>i<length (x # xs). f ((x # xs) ! i) = Inr (rs ! i))"
        then obtain r0 rs0 where rs: "rs = r0 # rs0" by (cases rs) auto
        from a rs Inr have "r0 = r" by auto
        moreover have "rs0 = rs'"
        proof (rule nth_equalityI)
          show "length rs0 = length rs'" using a rs t by simp
        next
          fix i assume "i < length rs0"
          then have i: "i < length xs" using a rs by simp
          with a rs have "f (xs ! i) = Inr (rs0 ! i)" by fastforce
          with t(2) i show "rs0 ! i = rs' ! i" by simp
        qed
        ultimately show "sequential_map f (x # xs) = Inr rs" using Inr r2 rs by simp
      qed
    qed
  qed
qed

lemma process_single_file_failure:
  "process_single_file env p = Inl e \<longleftrightarrow> readlines env p = None \<and> e = ReadError p"
  by (auto simp: process_single_file_def read_text_file_def convert_to_records_eq
           split: option.splits)

lemma generate_success:
  assumes c: "\<forall>i<length (text_files env d). i \<in> set completion"
    and s: "sequential_map (process_single_file env) (text_files env d) = Inr rs"
  shows "generate_json_dataset env completion d od out =
         Some (Inr (concat rs),
               out\<lparr>directories := insert od (directories out),
                    artifacts := (artifacts out)(path_join env od (ustr ''dataset.json'') \<mapsto> concat rs)\<rparr>)"
proof -
  from s have l: "length rs = length (text_files env d)"
    and ok: "\<forall>i<length (text_files env d). process_single_file env (text_files env d ! i) = Inr (rs ! i)"
    by (simp_all add: sequential_map_Inr)
  have "pool_map (process_single_file env) (text_files env d) completion = Some (Inr rs)"
    by (rule pool_map_success [OF c ok l])
  then show ?thesis by (simp add: generate_json_dataset_def Let_def)
qed

lemma generate_failure:
  assumes c: "\<forall>i<length (text_files env d). i \<in> set completion"
    and p: "p \<in> set (text_files env d)" and r: "readlines env p = None"
  shows "\<exists>q. q \<in> set (text_files env d) \<and> readlines env q = None \<and>
           generate_json_dataset env completion d od out =
           Some (Inl (ReadError q), out\<lparr>directories := insert od (directories out)\<rparr>)"
proof -
  from p obtain i where i: "i < length (text_files env d)" "text_files env d ! i = p"
    by (auto simp: in_set_conv_nth)
  have f: "process_single_file env (text_files env d ! i) = Inl (ReadError p)"
    using i(2) r by (simp add: process_single_file_failure)
  from pool_map_failure [where f = "process_single_file env" and xs = "text_files env d" and i = i, OF c i(1) f]
  obtain e k where ek: "pool_map (process_single_file env) (text_files env d) completion = Some (Inl e)"
    "k < length (text_files env d)" "process_single_file env (text_files env d ! k) = Inl e"
    by blast
  from ek(3) have q: "readlines env (text_files env d ! k) = None" "e = ReadError (text_files env d ! k)"
    by (simp_all add: process_single_file_failure)
  have "text_files env d ! k \<in> set (text_files env d)" using ek(2) by simp
  moreover have "generate_json_dataset env completion d od out =
      Some (Inl (ReadError (text_files env d ! k)), out\<lparr>directories := insert od (directories out)\<rparr>)"
    using ek(1) q(2) by (simp add: generate_json_dataset_def Let_def)
  ultimately show ?thesis using q(1) by blast
qed

lemma endswith_iff: "endswith s suffix \<longleftrightarrow> (\<exists>stem. s = stem @ suffix)"
proof
  assume "endswith s suffix"
  then have "s = take (length s - length suffix) s @ suffix"
    by (metis append_take_drop_id endswith_def)
  then show "\<exists>stem. s = stem @ suffix" ..
next
  assume "\<exists>stem. s = stem @ suffix"
  then show "endswith s suffix" by (auto simp: endswith_def)
qed

lemma concat_map_if:
  "concat (map (\<lambda>x. if P x then [g x] else []) xs) = map g (filter P xs)"
  by (induction xs) simp_all

lemma text_files_eq:
  "text_files env d =
   map (path_join env d) (filter (\<lambda>f. \<exists>stem. f = stem @ ustr ''.txt'') (listdir env d))"
  by (simp add: text_files_def concat_map_if endswith_iff)

section \<open>Properties of \<open>generate_json_dataset\<close>\<close>

lemma example_text_files:
  "text_files example_env (ustr ''novel'') =
     [ustr ''novel/a.txt'', ustr ''novel/b.txt'', ustr ''novel/c.txt'']"
  by (simp add: text_files_def example_env_def endswith_def ustr_def)

lemma failing_text_files:
  "text_files failing_env (ustr ''novel'') =
     [ustr ''novel/a.txt'', ustr ''novel/b.txt'', ustr ''novel/c.txt'']"
  by (simp add: text_files_def failing_env_def example_env_def endswith_def ustr_def)

lemma two_lines_records:
  "convert_to_records (process_lines_default [replicate 300 a, replicate 300 b]) =
     Inr [\<lparr>rec_instruction = INSTRUCTION, rec_input = replicate 300 a,
           rec_output = replicate 300 b\<rparr>]"
  by (simp add: convert_to_records_eq process_lines_default_def process_lines_def)

lemma no_lines_records: "convert_to_records (process_lines_default []) = Inr []"
  by (simp add: convert_to_records_eq process_lines_default_def process_lines_def)

lemma example_sequential:
  "sequential_map (process_single_file example_env)
     [ustr ''novel/a.txt'', ustr ''novel/b.txt'', ustr ''novel/c.txt''] =
   Inr [[\<lparr>rec_instruction = INSTRUCTION, rec_input = replicate 300 97,
           rec_output = replicate 300 98\<rparr>],
        [],
        [\<lparr>rec_instruction = INSTRUCTION, rec_input = replicate 300 99,
           rec_output = replicate 300 100\<rparr>]]"
  by (simp add: process_single_file_def read_text_file_def example_env_def ustr_def
        two_lines_records no_lines_records)

lemma all_complete: "\<forall>i<length [a, b, c]. i \<in> set [2, 0, 1::nat]"
  by (auto simp: less_Suc_eq)


text \<open>
  C5. When the qualifying files yield the record lists \<open>rs = [r_1, ..., r_n]\<close> in the
  order of enumeration (which is what a sequential map of \<open>process_single_file\<close> over
  the file list returns), \<open>generate_json_dataset\<close> returns, and writes to
  \<open>dataset.json\<close>, exactly \<open>r_1 @ ... @ r_n\<close>, for every order in which the workers
  finish their tasks; its length is the sum of the lengths of the \<open>r_i\<close>.
\<close>

theorem generate_json_dataset_fan_in_order:
  assumes "\<forall>i<length (text_files env input_dir). i \<in> set completion"
    and "sequential_map (process_single_file env) (text_files env input_dir) = Inr rs"
  shows "generate_json_dataset env completion input_dir output_dir out =
           Some (Inr (concat rs),
                 out\<lparr>directories := insert output_dir (directories out),
                      artifacts := (artifacts out)
                        (path_join env output_dir (ustr ''dataset.json'') \<mapsto> concat rs)\<rparr>)
         \<and> length (concat rs) = sum_list (map length rs)
         \<and> length rs = length (text_files env input_dir)
         \<and> (\<forall>i<length rs.
               process_single_file env (text_files env input_dir ! i) = Inr (rs ! i))"
proof -
  from assms(2) have "length rs = length (text_files env input_dir)"
    and "\<forall>i<length (text_files env input_dir).
           process_single_file env (text_files env input_dir ! i) = Inr (rs ! i)"
    by (simp_all add: sequential_map_Inr)
  with generate_success [OF assms] show ?thesis
    by (simp add: length_concat)
qed

theorem generate_json_dataset_fan_in_order_witness:
  "length (text_files example_env (ustr ''novel'')) = 3
   \<and> sequential_map (process_single_file example_env)
        (text_files example_env (ustr ''novel'')) =
       Inr [[\<lparr>rec_instruction = INSTRUCTION, rec_input = replicate 300 97,
               rec_output = replicate 300 98\<rparr>],
            [],
            [\<lparr>rec_instruction = INSTRUCTION, rec_input = replicate 300 99,
               rec_output = replicate 300 100\<rparr>]]
   \<and> generate_json_dataset example_env [2, 0, 1] (ustr ''novel'') (ustr ''./ok'') no_outputs =
       Some (Inr [\<lparr>rec_instruction = INSTRUCTION, rec_input = replicate 300 97,
                   rec_output = replicate 300 98\<rparr>,
                  \<lparr>rec_instruction = INSTRUCTION, rec_input = replicate 300 99,
                   rec_output = replicate 300 100\<rparr>],
             no_outputs\<lparr>directories := insert (ustr ''./ok'') (directories no_outputs),
                  artifacts := (artifacts no_outputs)
                    (path_join example_env (ustr ''./ok'') (ustr ''dataset.json'') \<mapsto>
                       [\<lparr>rec_instruction = INSTRUCTION, rec_input = replicate 300 97,
                          rec_output = replicate 300 98\<rparr>,
                        \<lparr>rec_instruction = INSTRUCTION, rec_input = replicate 300 99,
                          rec_output = replicate 300 100\<rparr>])\<rparr>)"
proof -
  have h1: "\<forall>i<length (text_files example_env (ustr ''novel'')). i \<in> set [2, 0, 1]"
    unfolding example_text_files by (rule all_complete)
  have h2: "sequential_map (process_single_file example_env)
        (text_files example_env (ustr ''novel'')) =
       Inr [[\<lparr>rec_instruction = INSTRUCTION, rec_input = replicate 300 97,
               rec_output = replicate 300 98\<rparr>],
            [],
            [\<lparr>rec_instruction = INSTRUCTION, rec_input = replicate 300 99,
               rec_output = replicate 300 100\<rparr>]]"
    unfolding example_text_files by (rule example_sequential)
  have n3: "length (text_files example_env (ustr ''novel'')) = 3"
    unfolding example_text_files by simp
  from generate_json_dataset_fan_in_order [OF h1 h2, of "ustr ''./ok''" no_outputs] n3 h2
  show ?thesis by simp
qed

text \<open>
  C7. \<open>generate_json_dataset\<close> hands to the pool exactly the entries of the directory
  listing whose name ends with \<open>.txt\<close> (the name is some stem followed by \<open>.txt\<close>), in
  the order of the listing, each joined to the directory; every other entry is left
  out, so the files processed and the entries ignored add up to the listing. The
  dataset is built from the selected files alone.
\<close>

theorem generate_json_dataset_selects_txt:
  assumes "\<forall>i<length (text_files env input_dir). i \<in> set completion"
    and "sequential_map (process_single_file env)
           (map (path_join env input_dir)
              (filter (\<lambda>f. \<exists>stem. f = stem @ ustr ''.txt'') (listdir env input_dir)))
         = Inr rs"
  shows "text_files env input_dir =
           map (path_join env input_dir)
             (filter (\<lambda>f. \<exists>stem. f = stem @ ustr ''.txt'') (listdir env input_dir))
         \<and> length (text_files env input_dir)
             + length (filter (\<lambda>f. \<not> (\<exists>stem. f = stem @ ustr ''.txt''))
                         (listdir env input_dir))
             = length (listdir env input_dir)
         \<and> (\<exists>out'. generate_json_dataset env completion input_dir output_dir out =
                      Some (Inr (concat rs), out'))"
proof -
  from assms(2)
  have s: "sequential_map (process_single_file env) (text_files env input_dir) = Inr rs"
    by (simp only: text_files_eq)
  have "length (text_files env input_dir)
          + length (filter (\<lambda>f. \<not> (\<exists>stem. f = stem @ ustr ''.txt''))
                      (listdir env input_dir))
        = length (listdir env input_dir)"
    unfolding text_files_eq length_map by (rule sum_length_filter_compl)
  with generate_success [OF assms(1) s, of output_dir out] show ?thesis
    by (simp add: text_files_eq)
qed

lemma example_selected:
  "filter (\<lambda>f. \<exists>stem. f = stem @ ustr ''.txt'') (listdir example_env (ustr ''novel''))
   = [ustr ''a.txt'', ustr ''b.txt'', ustr ''c.txt'']"
  unfolding endswith_iff [symmetric]
  by (simp add: example_env_def endswith_def ustr_def)

lemma example_ignored:
  "filter (\<lambda>f. \<not> (\<exists>stem. f = stem @ ustr ''.txt'')) (listdir example_env (ustr ''novel''))
   = [ustr ''notes.md'', ustr ''cover.png'']"
  unfolding endswith_iff [symmetric]
  by (simp add: example_env_def endswith_def ustr_def)

theorem generate_json_dataset_selects_txt_witness:
  "text_files example_env (ustr ''novel'') =
       [ustr ''novel/a.txt'', ustr ''novel/b.txt'', ustr ''novel/c.txt'']
   \<and> length (text_files example_env (ustr ''novel'')) = 3
   \<and> length (filter (\<lambda>f. \<not> (\<exists>stem. f = stem @ ustr ''.txt''))
                (listdir example_env (ustr ''novel''))) = 2
   \<and> (\<exists>out'. generate_json_dataset example_env [2, 0, 1] (ustr ''novel'') (ustr ''./ok'')
                 no_outputs =
               Some (Inr [\<lparr>rec_instruction = INSTRUCTION, rec_input = replicate 300 97,
                           rec_output = replicate 300 98\<rparr>,
                          \<lparr>rec_instruction = INSTRUCTION, rec_input = replicate 300 99,
                           rec_output = replicate 300 100\<rparr>], out'))"
proof -
  have h1: "\<forall>i<length (text_files example_env (ustr ''novel'')). i \<in> set [2, 0, 1]"
    unfolding example_text_files by (rule all_complete)
  have j: "map (path_join example_env (ustr ''novel''))
             [ustr ''a.txt'', ustr ''b.txt'', ustr ''c.txt'']
           = [ustr ''novel/a.txt'', ustr ''novel/b.txt'', ustr ''novel/c.txt'']"
    by (simp add: example_env_def ustr_def)
  have h2: "sequential_map (process_single_file example_env)
           (map (path_join example_env (ustr ''novel''))
              (filter (\<lambda>f. \<exists>stem. f = stem @ ustr ''.txt'')
                 (listdir example_env (ustr ''novel''))))
         = Inr [[\<lparr>rec_instruction = INSTRUCTION, rec_input = replicate 300 97,
               rec_output = replicate 300 98\<rparr>],
            [],
            [\<lparr>rec_instruction = INSTRUCTION, rec_input = replicate 300 99,
               rec_output = replicate 300 100\<rparr>]]"
    unfolding example_selected j by (rule example_sequential)
  from generate_json_dataset_selects_txt [OF h1 h2, of "ustr ''./ok''" no_outputs]
  have g: "\<exists>out'. generate_json_dataset example_env [2, 0, 1] (ustr ''novel'') (ustr ''./ok'')
                 no_outputs =
               Some (Inr [\<lparr>rec_instruction = INSTRUCTION, rec_input = replicate 300 97,
                           rec_output = replicate 300 98\<rparr>,
                          \<lparr>rec_instruction = INSTRUCTION, rec_input = replicate 300 99,
                           rec_output = replicate 300 100\<rparr>], out')"
    by simp
  have n3: "length (text_files example_env (ustr ''novel'')) = 3"
    unfolding example_text_files by simp
  have n2: "length (filter (\<lambda>f. \<not> (\<exists>stem. f = stem @ ustr ''.txt''))
                (listdir example_env (ustr ''novel''))) = 2"
    unfolding example_ignored by simp
  from example_text_files n3 n2 g show ?thesis
    by blast
qed

text \<open>
  C9. If reading one of the selected files fails, \<open>generate_json_dataset\<close> ends with
  the \<open>ReadError\<close> of an unreadable selected file, whatever the order in which the
  workers finish, and nothing is written to \<open>dataset.json\<close>: the only effect is the
  output directory made at the start. The artifact is written only when every file
  has been processed.
\<close>

theorem generate_json_dataset_no_partial_artifact:
  assumes "\<forall>i<length (text_files env input_dir). i \<in> set completion"
    and "p \<in> set (text_files env input_dir)"
    and "readlines env p = None"
  shows "\<exists>q. q \<in> set (text_files env input_dir) \<and> readlines env q = None \<and>
           generate_json_dataset env completion input_dir output_dir out =
             Some (Inl (ReadError q),
                   out\<lparr>directories := insert output_dir (directories out)\<rparr>)
           \<and> artifacts (out\<lparr>directories := insert output_dir (directories out)\<rparr>)
               = artifacts out"
  using generate_failure [OF assms, of output_dir out] by auto

lemma failing_unreadable: "readlines failing_env (ustr ''novel/b.txt'') = None"
  by (simp add: failing_env_def)

lemma failing_readable:
  "readlines failing_env (ustr ''novel/a.txt'') \<noteq> None"
  "readlines failing_env (ustr ''novel/c.txt'') \<noteq> None"
  by (simp_all add: failing_env_def example_env_def ustr_def)

theorem generate_json_dataset_no_partial_artifact_witness:
  "ustr ''novel/b.txt'' \<in> set (text_files failing_env (ustr ''novel''))
   \<and> readlines failing_env (ustr ''novel/b.txt'') = None
   \<and> generate_json_dataset failing_env [2, 0, 1] (ustr ''novel'') (ustr ''./ok'') no_outputs =
       Some (Inl (ReadError (ustr ''novel/b.txt'')),
             no_outputs\<lparr>directories := insert (ustr ''./ok'') (directories no_outputs)\<rparr>)
   \<and> artifacts (no_outputs\<lparr>directories := insert (ustr ''./ok'') (directories no_outputs)\<rparr>)
       = Map.empty"
proof -
  have h1: "\<forall>i<length (text_files failing_env (ustr ''novel'')). i \<in> set [2, 0, 1]"
    unfolding failing_text_files by (rule all_complete)
  have h2: "ustr ''novel/b.txt'' \<in> set (text_files failing_env (ustr ''novel''))"
    unfolding failing_text_files by simp
  note h3 = failing_unreadable
  from generate_json_dataset_no_partial_artifact
         [OF h1 h2 h3, of "ustr ''./ok''" no_outputs]
  obtain q where q: "q \<in> set (text_files failing_env (ustr ''novel''))"
      "readlines failing_env q = None"
      "generate_json_dataset failing_env [2, 0, 1] (ustr ''novel'') (ustr ''./ok'') no_outputs =
         Some (Inl (ReadError q),
               no_outputs\<lparr>directories := insert (ustr ''./ok'') (directories no_outputs)\<rparr>)"
    by blast
  from q(1) q(2) failing_readable have "q = ustr ''novel/b.txt''"
    unfolding failing_text_files by auto
  with q(3) have g: "generate_json_dataset failing_env [2, 0, 1] (ustr ''novel'') (ustr ''./ok'')
        no_outputs =
       Some (Inl (ReadError (ustr ''novel/b.txt'')),
             no_outputs\<lparr>directories := insert (ustr ''./ok'') (directories no_outputs)\<rparr>)"
    by simp
  have a: "artifacts (no_outputs\<lparr>directories := insert (ustr ''./ok'') (directories no_outputs)\<rparr>)
       = Map.empty"
    by (simp add: no_outputs_def)
  from h2 h3 g a show ?thesis by blast
qed

section \<open>Properties of \<open>wait_for_files_active\<close> and \<open>main\<close>\<close>

lemma wait_loop_steps:
  "\<forall>j<k. get_file env (file_name f) (polls t + j) \<noteq> ustr ''ACTIVE'' \<and>
          get_file env (file_name f) (polls t + j) \<noteq> ustr ''FAILED'' \<Longrightarrow>
   wait_loop env f t =
   wait_loop env f (t\<lparr>polls := polls t + k, sleeps := sleeps t + k, slept := slept t + 10 * k\<rparr>)"
proof (induction k arbitrary: t)
  case 0
  then show ?case by simp
next
  case (Suc k)
  let ?t1 = "t\<lparr>polls := polls t + 1, sleeps := sleeps t + 1, slept := slept t + 10\<rparr>"
  from Suc.prems have z: "get_file env (file_name f) (polls t) \<noteq> ustr ''ACTIVE''"
    "get_file env (file_name f) (polls t) \<noteq> ustr ''FAILED''"
    by (metis add.right_neutral zero_less_Suc)+
  have one: "wait_loop env f t = wait_loop env f ?t1"
    by (subst wait_loop.simps) (simp add: z)
  have "\<forall>j<k. get_file env (file_name f) (polls ?t1 + j) \<noteq> ustr ''ACTIVE'' \<and>
          get_file env (file_name f) (polls ?t1 + j) \<noteq> ustr ''FAILED''"
  proof (intro allI impI)
    fix j assume "j < k"
    then have "Suc j < Suc k" by simp
    with Suc.prems have "get_file env (file_name f) (polls t + Suc j) \<noteq> ustr ''ACTIVE'' \<and>
          get_file env (file_name f) (polls t + Suc j) \<noteq> ustr ''FAILED''" by blast
    then show "get_file env (file_name f) (polls ?t1 + j) \<noteq> ustr ''ACTIVE'' \<and>
          get_file env (file_name f) (polls ?t1 + j) \<noteq> ustr ''FAILED''" by simp
  qed
  then have two: "wait_loop env f ?t1 =
      wait_loop env f (?t1\<lparr>polls := polls ?t1 + k, sleeps := sleeps ?t1 + k,
                            slept := slept ?t1 + 10 * k\<rparr>)"
    by (rule Suc.IH)
  have eq: "?t1\<lparr>polls := polls ?t1 + k, sleeps := sleeps ?t1 + k, slept := slept ?t1 + 10 * k\<rparr>
      = t\<lparr>polls := polls t + Suc k, sleeps := sleeps t + Suc k, slept := slept t + 10 * Suc k\<rparr>"
    by simp
  from one two have "wait_loop env f t =
      wait_loop env f (?t1\<lparr>polls := polls ?t1 + k, sleeps := sleeps ?t1 + k,
                            slept := slept ?t1 + 10 * k\<rparr>)"
    by (rule trans)
  then show ?case by (simp only: eq)
qed

lemma ustr_active_failed: "ustr ''FAILED'' \<noteq> ustr ''ACTIVE''"
  by (simp add: ustr_def)

lemma wait_loop_active:
  assumes "\<forall>j<k. get_file env (file_name f) (polls t + j) \<noteq> ustr ''ACTIVE'' \<and>
          get_file env (file_name f) (polls t + j) \<noteq> ustr ''FAILED''"
    and "get_file env (file_name f) (polls t + k) = ustr ''ACTIVE''"
  shows "wait_loop env f t =
         Some (Inr (t\<lparr>polls := polls t + k + 1, sleeps := sleeps t + k, slept := slept t + 10 * k\<rparr>))"
  unfolding wait_loop_steps [OF assms(1)]
  by (subst wait_loop.simps) (simp add: assms(2))

lemma wait_loop_failed:
  assumes "\<forall>j<k. get_file env (file_name f) (polls t + j) \<noteq> ustr ''ACTIVE'' \<and>
          get_file env (file_name f) (polls t + j) \<noteq> ustr ''FAILED''"
    and "get_file env (file_name f) (polls t + k) = ustr ''FAILED''"
  shows "wait_loop env f t = Some (Inl (FileFailed (file_name f)))"
  unfolding wait_loop_steps [OF assms(1)]
  by (subst wait_loop.simps) (simp add: assms(2) ustr_active_failed)

lemma wait_for_one_file:
  "wait_for_files_active env [file] t =
     (case wait_loop env file t of
        None \<Rightarrow> None
      | Some (Inl e) \<Rightarrow> Some (Inl e)
      | Some (Inr t') \<Rightarrow> Some (Inr t'))"
  by (simp split: option.splits sum.splits)

lemma main_failed:
  assumes "upload_file env FILE_PATH = Some file"
    and "wait_for_files_active env [file] t = Some (Inl e)"
  shows "main env completion t out = Some (Inl e, out)"
  using assms by (simp add: main_def upload_to_gemini_def)

text \<open>
  C8. \<open>wait_for_files_active\<close> requests the state of the file again and again, with
  one \<open>time.sleep(10)\<close> after each answer that is neither \<open>ACTIVE\<close> nor \<open>FAILED\<close>. If the
  first \<open>k\<close> answers are of that kind and the next one is \<open>ACTIVE\<close>, it returns after
  exactly \<open>k\<close> sleeps, \<open>10 * k\<close> time units in total; if the next one is \<open>FAILED\<close>, it
  raises the exception that names the file, and \<open>main\<close> ends with that exception
  with nothing written and no directory made, that is before \<open>generate_json_dataset\<close>
  and any chunking.
\<close>

theorem wait_for_files_active_polls:
  assumes "\<forall>j<k. get_file env (file_name file) (polls t + j) \<noteq> ustr ''ACTIVE'' \<and>
                 get_file env (file_name file) (polls t + j) \<noteq> ustr ''FAILED''"
  shows "(get_file env (file_name file) (polls t + k) = ustr ''ACTIVE'' \<longrightarrow>
            wait_for_files_active env [file] t =
              Some (Inr (t\<lparr>polls := polls t + k + 1, sleeps := sleeps t + k,
                          slept := slept t + 10 * k\<rparr>)))
       \<and> (get_file env (file_name file) (polls t + k) = ustr ''FAILED'' \<longrightarrow>
            wait_for_files_active env [file] t = Some (Inl (FileFailed (file_name file)))
            \<and> (upload_file env FILE_PATH = Some file \<longrightarrow>
                 main env completion t out = Some (Inl (FileFailed (file_name file)), out)))"
proof (intro conjI impI)
  assume "get_file env (file_name file) (polls t + k) = ustr ''ACTIVE''"
  from wait_loop_active [OF assms this]
  show "wait_for_files_active env [file] t =
          Some (Inr (t\<lparr>polls := polls t + k + 1, sleeps := sleeps t + k,
                      slept := slept t + 10 * k\<rparr>))"
    by (simp only: wait_for_one_file option.case sum.case)
next
  assume f: "get_file env (file_name file) (polls t + k) = ustr ''FAILED''"
  from wait_loop_failed [OF assms f]
  show w: "wait_for_files_active env [file] t = Some (Inl (FileFailed (file_name file)))"
    by (simp only: wait_for_one_file option.case sum.case)
  assume "upload_file env FILE_PATH = Some file"
  then show "main env completion t out = Some (Inl (FileFailed (file_name file)), out)"
    using w by (rule main_failed)
qed

theorem wait_for_files_active_polls_witness:
  "get_file example_env (ustr ''files/n1'') (polls timer_start) = ustr ''PROCESSING''
   \<and> get_file example_env (ustr ''files/n1'') (polls timer_start + 1) = ustr ''PROCESSING''
   \<and> get_file example_env (ustr ''files/n1'') (polls timer_start + 2) = ustr ''ACTIVE''
   \<and> wait_for_files_active example_env
        [\<lparr>file_name = ustr ''files/n1'', file_display_name = ustr ''n1.txt'',
          file_uri = ustr ''uri''\<rparr>] timer_start
       = Some (Inr \<lparr>polls = 3, sleeps = 2, slept = 20\<rparr>)
   \<and> get_file failing_env (ustr ''files/n1'') (polls timer_start) = ustr ''PROCESSING''
   \<and> get_file failing_env (ustr ''files/n1'') (polls timer_start + 1) = ustr ''FAILED''
   \<and> upload_file failing_env FILE_PATH =
        Some \<lparr>file_name = ustr ''files/n1'', file_display_name = ustr ''n1.txt'',
              file_uri = ustr ''uri''\<rparr>
   \<and> main failing_env [2, 0, 1] timer_start no_outputs =
        Some (Inl (FileFailed (ustr ''files/n1'')), no_outputs)"
proof -
  let ?f = "\<lparr>file_name = ustr ''files/n1'', file_display_name = ustr ''n1.txt'',
             file_uri = ustr ''uri''\<rparr>"
  have a1: "\<forall>j<2. get_file example_env (file_name ?f) (polls timer_start + j) \<noteq> ustr ''ACTIVE'' \<and>
           get_file example_env (file_name ?f) (polls timer_start + j) \<noteq> ustr ''FAILED''"
    by (simp add: example_env_def timer_start_def ustr_def)
  have a2: "get_file example_env (file_name ?f) (polls timer_start + 2) = ustr ''ACTIVE''"
    by (simp add: example_env_def timer_start_def)
  have b1: "\<forall>j<1. get_file failing_env (file_name ?f) (polls timer_start + j) \<noteq> ustr ''ACTIVE'' \<and>
           get_file failing_env (file_name ?f) (polls timer_start + j) \<noteq> ustr ''FAILED''"
    by (simp add: failing_env_def timer_start_def ustr_def)
  have b2: "get_file failing_env (file_name ?f) (polls timer_start + 1) = ustr ''FAILED''"
    by (simp add: failing_env_def timer_start_def)
  have b3: "upload_file failing_env FILE_PATH = Some ?f"
    by (simp add: failing_env_def example_env_def)
  from wait_for_files_active_polls [OF a1] a2
  have r1: "wait_for_files_active example_env [?f] timer_start
       = Some (Inr \<lparr>polls = 3, sleeps = 2, slept = 20\<rparr>)"
    by (simp add: timer_start_def)
  from wait_for_files_active_polls [OF b1, of "[2, 0, 1]" no_outputs] b2 b3
  have r2: "main failing_env [2, 0, 1] timer_start no_outputs =
        Some (Inl (FileFailed (ustr ''files/n1'')), no_outputs)"
    by simp
  have p: "get_file example_env (ustr ''files/n1'') (polls timer_start) = ustr ''PROCESSING''"
    "get_file example_env (ustr ''files/n1'') (polls timer_start + 1) = ustr ''PROCESSING''"
    "get_file failing_env (ustr ''files/n1'') (polls timer_start) = ustr ''PROCESSING''"
    by (simp_all add: example_env_def failing_env_def timer_start_def)
  from p a2 b2 b3 r1 r2 show ?thesis by simp
qed

end
